theory Spec2Isabelle
  imports Main "HOL-Library.Sublist"
begin

section \<open>The ePub content gateway of server.js\<close>

text \<open>
  The development embeds the request handler that server.js mounts on
  \<^verbatim>\<open>/epubs_content/:bookId/*\<close>: the validation of the user token (the part of the
  handler between the markers "Logica de Validacion del userToken" and "Fin de Logica
  de Validacion"), and the construction and the check of the file path (the part
  under "Seguridad: Prevenir Path Traversal").

  JavaScript strings are modelled as \<^typ>\<open>string\<close>, one \<^typ>\<open>char\<close> per code unit;
  the code units above 255 have no counterpart here. The time and the expiration
  timestamp are modelled as \<^typ>\<open>int\<close>. \<^verbatim>\<open>Date.now()\<close> is an integer of magnitude
  at most 8.64e15, which a JavaScript number holds exactly; \<^verbatim>\<open>parseInt\<close> rounds a
  digit string beyond 2^53 to the nearest number, which is still beyond every value
  of \<^verbatim>\<open>Date.now()\<close>, so the comparison of the handler has the outcome of the
  comparison of the exact integers.
\<close>

subsection \<open>String.prototype.split and Array.prototype.join\<close>

text \<open>
  \<^verbatim>\<open>s.split(c)\<close> for a one-character separator: the pieces of \<open>s\<close> between the
  occurrences of \<open>c\<close>, empty pieces included; the empty string gives one empty piece.
  A character other than \<open>c\<close> goes in front of the first piece of the rest; the rest
  always has a first piece (\<open>split_on_not_Nil\<close> below), so the second case is never taken.
\<close>

fun split_on :: "char \<Rightarrow> string \<Rightarrow> string list" where
  "split_on c [] = [[]]"
| "split_on c (x # xs) =
     (if x = c then [] # split_on c xs
      else (case split_on c xs of
              p # ps \<Rightarrow> (x # p) # ps
            | [] \<Rightarrow> [[x]]))"

text \<open>\<^verbatim>\<open>parts.join(sep)\<close>.\<close>

fun join_with :: "string \<Rightarrow> string list \<Rightarrow> string" where
  "join_with sep [] = []"
| "join_with sep [p] = p"
| "join_with sep (p # q # ps) = p @ sep @ join_with sep (q # ps)"

subsection \<open>parseInt(s, 10)\<close>

text \<open>
  ECMAScript's \<^verbatim>\<open>parseInt\<close> with radix 10: leading white space is dropped, one sign
  is read, then the longest prefix of decimal digits is the value; what follows the
  digits is ignored. Without a digit the result is NaN, here \<open>None\<close>.
\<close>

definition isWhiteSpace :: "char \<Rightarrow> bool" where
  "isWhiteSpace c = (of_char c \<in> {9, 10, 11, 12, 13, 32, 160 :: nat})"

definition isDigit :: "char \<Rightarrow> bool" where
  "isDigit c = (48 \<le> (of_char c :: nat) \<and> (of_char c :: nat) \<le> 57)"

definition digitValue :: "char \<Rightarrow> int" where
  "digitValue c = int (of_char c) - 48"

definition digitsValue :: "string \<Rightarrow> int" where
  "digitsValue ds = foldl (\<lambda>acc d. 10 * acc + digitValue d) 0 ds"

definition parseInt10 :: "string \<Rightarrow> int option" where
  "parseInt10 s =
     (let s1 = dropWhile isWhiteSpace s;
          sign = (if s1 \<noteq> [] \<and> hd s1 = CHR ''-'' then - 1 else 1);
          s2 = (if s1 \<noteq> [] \<and> (hd s1 = CHR ''+'' \<or> hd s1 = CHR ''-'') then tl s1 else s1);
          z = takeWhile isDigit s2
      in if z = [] then None else Some (sign * digitsValue z))"

subsection \<open>The request and the responses\<close>

text \<open>
  What the handler reads of the request: \<^verbatim>\<open>req.params.bookId\<close>,
  \<^verbatim>\<open>req.query.userToken\<close>, \<^verbatim>\<open>req.headers.authorization\<close> (each of the two absent
  or a string) and \<^verbatim>\<open>req.path\<close>.
\<close>

record request =
  bookId :: string
  queryUserToken :: "string option"
  authorization :: "string option"
  path :: string

text \<open>
  The four 403 responses of the handler, by their messages:
  \<^item> \<open>TokenNotProvided\<close>: "Acceso denegado: Token de usuario no proporcionado."
    (the specification's MissingToken);
  \<^item> \<open>TokenInvalidOrWrongBook\<close>: "Acceso denegado: Token invalido o no corresponde al
    libro.", the one answer to a token of fewer than four parts and to a token of
    another book (the specification's MalformedToken and ResourceMismatch);
  \<^item> \<open>TokenExpiredOrInvalid\<close>: "Acceso denegado: Token expirado o invalido.", the one
    answer to an expiration that does not parse and to one that has passed (the
    specification's MalformedExpiration and Expired);
  \<^item> \<open>TokenNotForThisBook\<close>: "Acceso denegado: Token no valido para este libro.", of
    the second comparison of the book.
  The 400 "Ruta de archivo no valida." is the specification's PathTraversal.
\<close>

datatype denial =
    TokenNotProvided
  | TokenInvalidOrWrongBook
  | TokenExpiredOrInvalid
  | TokenNotForThisBook

datatype decision = Allow | Deny denial

text \<open>
  The responses: a 403 with one of the messages above, the 400 "Ruta de archivo no
  valida.", or the handler goes on to \<^verbatim>\<open>fs.readFile(fullFilePath, ...)\<close>.
\<close>

datatype response =
    Forbidden denial
  | InvalidPath
  | ReadFile string

subsection \<open>The validation of the user token\<close>

text \<open>
  \<^verbatim>\<open>req.query.userToken || req.headers.authorization\<close>: the query parameter unless
  it is absent or the empty string.
\<close>

definition userTokenOf :: "request \<Rightarrow> string option" where
  "userTokenOf req =
     (case queryUserToken req of
        None \<Rightarrow> authorization req
      | Some q \<Rightarrow> if q = [] then authorization req else Some q)"

text \<open>The checks of the handler on the parts of a token that is there, in their order.\<close>

definition checkTokenParts :: "string list \<Rightarrow> string \<Rightarrow> int \<Rightarrow> decision" where
  "checkTokenParts tokenParts bId currentTime =
     (if length tokenParts < 4 \<or> tokenParts ! 0 \<noteq> bId
      then Deny TokenInvalidOrWrongBook
      else
        let tokenBookId = tokenParts ! 0;
            expirationTimestamp = parseInt10 (tokenParts ! 2)
        in case expirationTimestamp of
             None \<Rightarrow> Deny TokenExpiredOrInvalid
           | Some e \<Rightarrow>
               if currentTime > e then Deny TokenExpiredOrInvalid
               else if tokenBookId \<noteq> bId then Deny TokenNotForThisBook
               else Allow)"

definition validateToken :: "request \<Rightarrow> int \<Rightarrow> decision" where
  "validateToken req currentTime =
     (case userTokenOf req of
        None \<Rightarrow> Deny TokenNotProvided
      | Some userToken \<Rightarrow>
          if userToken = [] then Deny TokenNotProvided
          else checkTokenParts (split_on CHR ''_'' userToken) (bookId req) currentTime)"

subsection \<open>path.join\<close>

text \<open>
  Node's POSIX \<^verbatim>\<open>path.normalize\<close> works through the segments of the path with the
  segments kept so far: an empty segment and \<^verbatim>\<open>.\<close> are skipped, \<^verbatim>\<open>..\<close> removes the
  last kept segment unless there is none or it is \<^verbatim>\<open>..\<close> itself, and then it is kept
  in a relative path and dropped in an absolute one. The kept segments are held
  last first.
\<close>

fun normalizeString :: "bool \<Rightarrow> string list \<Rightarrow> string list \<Rightarrow> string list" where
  "normalizeString allowAboveRoot kept [] = rev kept"
| "normalizeString allowAboveRoot kept (s # ss) =
     (if s = [] \<or> s = ''.'' then normalizeString allowAboveRoot kept ss
      else if s = ''..'' then
        (if kept \<noteq> [] \<and> hd kept \<noteq> ''..'' then normalizeString allowAboveRoot (tl kept) ss
         else if allowAboveRoot then normalizeString allowAboveRoot (s # kept) ss
         else normalizeString allowAboveRoot kept ss)
      else normalizeString allowAboveRoot (s # kept) ss)"

definition isAbsolute :: "string \<Rightarrow> bool" where
  "isAbsolute p = (p \<noteq> [] \<and> hd p = CHR ''/'')"

definition normalize_path :: "string \<Rightarrow> string" where
  "normalize_path p =
     (if p = [] then ''.''
      else
        let trailingSeparator = (last p = CHR ''/'');
            res = join_with ''/'' (normalizeString (\<not> isAbsolute p) [] (split_on CHR ''/'' p))
        in if res = [] then
             (if isAbsolute p then ''/'' else if trailingSeparator then ''./'' else ''.'')
           else
             (if isAbsolute p then ''/'' else []) @ res @
             (if trailingSeparator then ''/'' else []))"

text \<open>\<^verbatim>\<open>path.join(...args)\<close>: the non-empty arguments joined by \<^verbatim>\<open>/\<close>, normalized.\<close>

definition path_join :: "string list \<Rightarrow> string" where
  "path_join args =
     (let parts = filter (\<lambda>a. a \<noteq> []) args
      in if parts = [] then ''.'' else normalize_path (join_with ''/'' parts))"

subsection \<open>The file path and the handler\<close>

definition fullFilePath :: "string \<Rightarrow> request \<Rightarrow> string" where
  "fullFilePath dirname req =
     path_join [dirname, ''epubs_descomprimidos'', bookId req, path req]"

definition safeBase :: "string \<Rightarrow> request \<Rightarrow> string" where
  "safeBase dirname req = path_join [dirname, ''epubs_descomprimidos'', bookId req]"

text \<open>
  \<^verbatim>\<open>fullFilePath.startsWith(safeBase)\<close> is \<^term>\<open>prefix\<close> on the characters. The result
  is the path that goes to \<^verbatim>\<open>fs.readFile\<close>, or \<open>None\<close> for the 400.
\<close>

definition resolvePath :: "string \<Rightarrow> request \<Rightarrow> string option" where
  "resolvePath dirname req =
     (if \<not> prefix (safeBase dirname req) (fullFilePath dirname req) then None
      else Some (fullFilePath dirname req))"

definition handler :: "string \<Rightarrow> request \<Rightarrow> int \<Rightarrow> response" where
  "handler dirname req currentTime =
     (case validateToken req currentTime of
        Deny d \<Rightarrow> Forbidden d
      | Allow \<Rightarrow>
          (case resolvePath dirname req of
             None \<Rightarrow> InvalidPath
           | Some p \<Rightarrow> ReadFile p))"

subsection \<open>The mount\<close>

text \<open>
  server.js mounts the handler with \<^verbatim>\<open>app.use('/epubs_content/:bookId/*', ...)\<close>.
  Express 4 turns the pattern into a regular expression whose \<^verbatim>\<open>*\<close> is \<^verbatim>\<open>(.*)\<close>
  and takes everything after the book, so the matched text is the whole path of the
  URL; for a handler mounted with \<^verbatim>\<open>app.use\<close> the router removes the matched text
  from \<^verbatim>\<open>req.url\<close> and puts a separator in front of what is left. The handler
  therefore finds \<^verbatim>\<open>/\<close> in \<^verbatim>\<open>req.path\<close>, whatever followed the book in the URL
  (\<open>rest\<close> below, the text that \<^verbatim>\<open>*\<close> matched).
\<close>

definition mountedPath :: "string \<Rightarrow> string" where
  "mountedPath rest = ''/''"

text \<open>
  The request that the handler sees for the URL \<^verbatim>\<open>/epubs_content/<book>/<rest>\<close>,
  with the user token of the query and the authorization header.
\<close>

definition mountedRequest ::
  "string \<Rightarrow> string option \<Rightarrow> string option \<Rightarrow> string \<Rightarrow> request" where
  "mountedRequest bId q a rest =
     \<lparr>bookId = bId, queryUserToken = q, authorization = a, path = mountedPath rest\<rparr>"

subsection \<open>Containment by path components\<close>

text \<open>
  The specification's containment: the components of a path are its non-empty
  segments, and a path lies within a root when the root's components are the first
  components of the path (the path is the root or the root is an ancestor of it).
\<close>

definition components :: "string \<Rightarrow> string list" where
  "components p = filter (\<lambda>s. s \<noteq> []) (split_on CHR ''/'' p)"

definition within_root :: "string \<Rightarrow> string \<Rightarrow> bool" where
  "within_root root p = prefix (components root) (components p)"

text \<open>
  A plain segment is a name: not empty, not \<^verbatim>\<open>.\<close>, not \<^verbatim>\<open>..\<close>, and without a
  separator. The kept segments of a path are what normalization keeps of an absolute
  path.
\<close>

definition plainSegment :: "string \<Rightarrow> bool" where
  "plainSegment s = (s \<noteq> [] \<and> s \<noteq> ''.'' \<and> s \<noteq> ''..'' \<and> CHR ''/'' \<notin> set s)"

definition keptSegments :: "string \<Rightarrow> string list" where
  "keptSegments p = normalizeString False [] (split_on CHR ''/'' p)"

text \<open>
  The specification's expiration field: a non-negative decimal integer, a non-empty
  string of decimal digits.
\<close>

definition isDecimalInteger :: "string \<Rightarrow> bool" where
  "isDecimalInteger s = (s \<noteq> [] \<and> list_all isDigit s)"

section \<open>Facts about split and parseInt\<close>

lemma split_on_not_Nil: "split_on c s \<noteq> []"
  by (induction s) (auto split: list.splits)

lemma four_parts_not_empty: "4 \<le> length (split_on c t) \<Longrightarrow> t \<noteq> []"
  by (cases t) auto

lemma digit_not_space: "isDigit c \<Longrightarrow> \<not> isWhiteSpace c"
  by (auto simp: isDigit_def isWhiteSpace_def)

lemma digit_not_sign: "isDigit c \<Longrightarrow> c \<noteq> CHR ''+'' \<and> c \<noteq> CHR ''-''"
  by (auto simp: isDigit_def)

lemma takeWhile_digits_prefix:
  assumes "list_all isDigit ds" and "rest = [] \<or> \<not> isDigit (hd rest)"
  shows "takeWhile isDigit (ds @ rest) = ds"
proof -
  from assms(2) have "takeWhile isDigit rest = []"
    by (cases rest) auto
  with assms(1) show ?thesis
    by (simp add: list_all_iff)
qed

text \<open>
  \<^verbatim>\<open>parseInt\<close> reads a leading run of digits and stops at the first character that
  is not a digit.
\<close>

lemma parseInt10_digits_prefix:
  assumes ne: "ds \<noteq> []" and dig: "list_all isDigit ds"
    and stop: "rest = [] \<or> \<not> isDigit (hd rest)"
  shows "parseInt10 (ds @ rest) = Some (digitsValue ds)"
proof -
  from ne obtain d ds' where ds: "ds = d # ds'" by (cases ds) auto
  with dig have d: "isDigit d" by simp
  have drop: "dropWhile isWhiteSpace (ds @ rest) = ds @ rest"
    using d ds digit_not_space by simp
  have sign: "hd (ds @ rest) \<noteq> CHR ''+''" "hd (ds @ rest) \<noteq> CHR ''-''"
    using d ds digit_not_sign by auto
  show ?thesis
    unfolding parseInt10_def drop Let_def
    using sign ne takeWhile_digits_prefix [OF dig stop] by simp
qed

lemma parseInt10_decimal: "isDecimalInteger s \<Longrightarrow> parseInt10 s = Some (digitsValue s)"
  using parseInt10_digits_prefix [of s "[]"] by (simp add: isDecimalInteger_def)

text \<open>NaN is the result exactly when no digit follows the white space and the sign.\<close>

lemma parseInt10_None_iff:
  "parseInt10 s = None \<longleftrightarrow>
     takeWhile isDigit
       (let s1 = dropWhile isWhiteSpace s
        in if s1 \<noteq> [] \<and> (hd s1 = CHR ''+'' \<or> hd s1 = CHR ''-'') then tl s1 else s1) = []"
  by (simp add: parseInt10_def Let_def)

section \<open>The validation of the token\<close>

lemma validateToken_supplied:
  assumes "userTokenOf req = Some t" and "t \<noteq> []"
  shows "validateToken req now = checkTokenParts (split_on CHR ''_'' t) (bookId req) now"
  using assms by (simp add: validateToken_def)

lemma handler_Deny: "validateToken req now = Deny d \<Longrightarrow> handler dir req now = Forbidden d"
  by (simp add: handler_def)

lemma checkTokenParts_valid:
  assumes "4 \<le> length parts" and "parts ! 0 = b" and "parseInt10 (parts ! 2) = Some e"
  shows "checkTokenParts parts b now = (if now > e then Deny TokenExpiredOrInvalid else Allow)"
  using assms by (simp add: checkTokenParts_def)

text \<open>
  C2. A token whose first part is not the book of the URL is denied, whatever its
  expiration part and whatever the time: the handler answers 403 with the message of
  an invalid token or a token of another book, and reads no file. The token is one
  the handler takes as provided (the empty string counts as no token).
\<close>

theorem wrong_book_denied:
  assumes "userTokenOf req = Some t" and "t \<noteq> []"
    and "split_on CHR ''_'' t ! 0 \<noteq> bookId req"
  shows "validateToken req now = Deny TokenInvalidOrWrongBook \<and>
         handler dir req now = Forbidden TokenInvalidOrWrongBook"
proof -
  have "validateToken req now = Deny TokenInvalidOrWrongBook"
    using assms by (simp add: validateToken_supplied checkTokenParts_def)
  then show ?thesis by (simp add: handler_Deny)
qed

theorem wrong_book_denied_witness:
  "validateToken \<lparr>bookId = ''book1'', queryUserToken = Some ''book2_userA_9999999999999_xyz'',
       authorization = None, path = ''/OEBPS/chapter1.xhtml''\<rparr> 1700000000000
     = Deny TokenInvalidOrWrongBook \<and>
   handler ''/srv'' \<lparr>bookId = ''book1'', queryUserToken = Some ''book2_userA_9999999999999_xyz'',
       authorization = None, path = ''/OEBPS/chapter1.xhtml''\<rparr> 1700000000000
     = Forbidden TokenInvalidOrWrongBook"
  by (rule wrong_book_denied [where t = "''book2_userA_9999999999999_xyz''"])
     (simp_all add: userTokenOf_def)

text \<open>
  C3. A provided token of at least four parts, whose first part is the book of the
  URL and whose third part parses to an expiration that the time has not passed, is
  allowed.
\<close>

theorem valid_token_allowed:
  assumes "userTokenOf req = Some t"
    and "4 \<le> length (split_on CHR ''_'' t)"
    and "split_on CHR ''_'' t ! 0 = bookId req"
    and "parseInt10 (split_on CHR ''_'' t ! 2) = Some e"
    and "now \<le> e"
  shows "validateToken req now = Allow"
proof -
  from assms(2) have "t \<noteq> []" by (rule four_parts_not_empty)
  with assms(1) have "validateToken req now
      = checkTokenParts (split_on CHR ''_'' t) (bookId req) now"
    by (rule validateToken_supplied)
  also have "\<dots> = Allow"
    using assms(2-5) by (simp add: checkTokenParts_valid)
  finally show ?thesis .
qed

theorem valid_token_allowed_witness:
  "validateToken \<lparr>bookId = ''book1'', queryUserToken = Some ''book1_userA_9999999999999_xyz'',
       authorization = None, path = ''/OEBPS/chapter1.xhtml''\<rparr> 1700000000000 = Allow"
  by (rule valid_token_allowed [where t = "''book1_userA_9999999999999_xyz''"
        and e = 9999999999999])
     (simp_all add: userTokenOf_def parseInt10_def isWhiteSpace_def isDigit_def
        digitsValue_def digitValue_def)


text \<open>
  C4, as stated, fails: the expiration part \<^verbatim>\<open>9999999999999abc\<close> is not a decimal
  integer, and the token is allowed, because \<^verbatim>\<open>parseInt\<close> reads the digits in front.
\<close>

theorem unparsed_expiration_counterexample:
  "\<not> isDecimalInteger (split_on CHR ''_'' ''book1_userA_9999999999999abc_xyz'' ! 2) \<and>
   validateToken \<lparr>bookId = ''book1'', queryUserToken = Some ''book1_userA_9999999999999abc_xyz'',
       authorization = None, path = ''/OEBPS/chapter1.xhtml''\<rparr> 1700000000000 = Allow"
  by (simp add: isDecimalInteger_def validateToken_def userTokenOf_def checkTokenParts_def
        parseInt10_def isWhiteSpace_def isDigit_def digitsValue_def digitValue_def)

text \<open>
  C4, amended. A provided token of at least four parts whose first part is the book
  of the URL, and whose expiration part \<^verbatim>\<open>parseInt\<close> turns into NaN (no digit after
  the leading white space and an optional sign), is denied at every time, with the
  403 of an expired or invalid token: the response that an expired token gets too.
  Such an expiration part is never a decimal integer.
\<close>

theorem nan_expiration_denied:
  assumes "userTokenOf req = Some t"
    and "4 \<le> length (split_on CHR ''_'' t)"
    and "split_on CHR ''_'' t ! 0 = bookId req"
    and "parseInt10 (split_on CHR ''_'' t ! 2) = None"
  shows "\<not> isDecimalInteger (split_on CHR ''_'' t ! 2) \<and>
         validateToken req now = Deny TokenExpiredOrInvalid \<and>
         handler dir req now = Forbidden TokenExpiredOrInvalid"
proof -
  from assms(2) have "t \<noteq> []" by (rule four_parts_not_empty)
  with assms(1) have "validateToken req now
      = checkTokenParts (split_on CHR ''_'' t) (bookId req) now"
    by (rule validateToken_supplied)
  also have "\<dots> = Deny TokenExpiredOrInvalid"
    using assms(2-4) by (simp add: checkTokenParts_def)
  finally have deny: "validateToken req now = Deny TokenExpiredOrInvalid" .
  have "\<not> isDecimalInteger (split_on CHR ''_'' t ! 2)"
    using assms(4) parseInt10_decimal by fastforce
  with deny show ?thesis by (simp add: handler_Deny)
qed

theorem nan_expiration_denied_witness:
  "parseInt10 (split_on CHR ''_'' ''book1_userA_soon_xyz'' ! 2) = None \<and>
   validateToken \<lparr>bookId = ''book1'', queryUserToken = Some ''book1_userA_soon_xyz'',
       authorization = None, path = ''/OEBPS/chapter1.xhtml''\<rparr> 0
     = Deny TokenExpiredOrInvalid"
proof -
  have p: "parseInt10 (split_on CHR ''_'' ''book1_userA_soon_xyz'' ! 2) = None"
    by (simp add: parseInt10_def isWhiteSpace_def isDigit_def)
  show ?thesis
    using p nan_expiration_denied [where t = "''book1_userA_soon_xyz''" and now = 0
        and req = "\<lparr>bookId = ''book1'', queryUserToken = Some ''book1_userA_soon_xyz'',
          authorization = None, path = ''/OEBPS/chapter1.xhtml''\<rparr>"]
    by (simp add: userTokenOf_def)
qed

text \<open>
  C5. The comparison is \<^verbatim>\<open>currentTime > expirationTimestamp\<close>: an otherwise valid
  token is allowed at the instant of its expiration and denied, with the 403 of an
  expired token, one millisecond later.
\<close>

theorem expiration_boundary:
  assumes "userTokenOf req = Some t"
    and "4 \<le> length (split_on CHR ''_'' t)"
    and "split_on CHR ''_'' t ! 0 = bookId req"
    and "parseInt10 (split_on CHR ''_'' t ! 2) = Some e"
  shows "validateToken req e = Allow \<and>
         validateToken req (e + 1) = Deny TokenExpiredOrInvalid \<and>
         handler dir req (e + 1) = Forbidden TokenExpiredOrInvalid"
proof -
  from assms(2) have "t \<noteq> []" by (rule four_parts_not_empty)
  with assms(1) have v: "validateToken req now
      = checkTokenParts (split_on CHR ''_'' t) (bookId req) now" for now
    by (rule validateToken_supplied)
  have c: "checkTokenParts (split_on CHR ''_'' t) (bookId req) now
      = (if now > e then Deny TokenExpiredOrInvalid else Allow)" for now
    using assms(2-4) by (rule checkTokenParts_valid)
  have "validateToken req e = Allow" by (simp add: v c)
  moreover have "validateToken req (e + 1) = Deny TokenExpiredOrInvalid" by (simp add: v c)
  ultimately show ?thesis by (simp add: handler_Deny)
qed

theorem expiration_boundary_witness:
  "validateToken \<lparr>bookId = ''book1'', queryUserToken = Some ''book1_userA_1000_xyz'',
       authorization = None, path = ''/OEBPS/chapter1.xhtml''\<rparr> 1000 = Allow \<and>
   validateToken \<lparr>bookId = ''book1'', queryUserToken = Some ''book1_userA_1000_xyz'',
       authorization = None, path = ''/OEBPS/chapter1.xhtml''\<rparr> 1001
     = Deny TokenExpiredOrInvalid"
proof -
  have p: "parseInt10 (split_on CHR ''_'' ''book1_userA_1000_xyz'' ! 2) = Some 1000"
    by (simp add: parseInt10_def isWhiteSpace_def isDigit_def digitsValue_def digitValue_def)
  show ?thesis
    using p expiration_boundary [where t = "''book1_userA_1000_xyz''" and e = 1000
        and req = "\<lparr>bookId = ''book1'', queryUserToken = Some ''book1_userA_1000_xyz'',
          authorization = None, path = ''/OEBPS/chapter1.xhtml''\<rparr>"]
    by (simp add: userTokenOf_def)
qed

text \<open>
  C6. A provided token that splits into fewer than four parts is denied with the
  403 of an invalid token, at every time and whatever the book; the token
  \<^verbatim>\<open>book1\<close> is the witness.
\<close>

theorem short_token_denied:
  assumes "userTokenOf req = Some t" and "t \<noteq> []"
    and "length (split_on CHR ''_'' t) < 4"
  shows "validateToken req now = Deny TokenInvalidOrWrongBook \<and>
         handler dir req now = Forbidden TokenInvalidOrWrongBook"
proof -
  have "validateToken req now = Deny TokenInvalidOrWrongBook"
    using assms by (simp add: validateToken_supplied checkTokenParts_def)
  then show ?thesis by (simp add: handler_Deny)
qed

theorem short_token_denied_witness:
  "length (split_on CHR ''_'' ''book1'') < 4 \<and>
   validateToken \<lparr>bookId = ''book1'', queryUserToken = Some ''book1'',
       authorization = None, path = ''/OEBPS/chapter1.xhtml''\<rparr> 1700000000000
     = Deny TokenInvalidOrWrongBook"
  using short_token_denied [where t = "''book1''" and now = 1700000000000
        and req = "\<lparr>bookId = ''book1'', queryUserToken = Some ''book1'',
          authorization = None, path = ''/OEBPS/chapter1.xhtml''\<rparr>"]
  by (simp add: userTokenOf_def)

text \<open>
  C9. When the expiration part is a run of decimal digits followed by a character
  that is not a digit, the handler takes the value of the digits as the expiration
  and does not answer that the token is malformed: when the other checks pass, the
  token is allowed as long as the time is not beyond that value, and denied as
  expired once it is.
\<close>

theorem digit_prefix_expiration:
  assumes "userTokenOf req = Some t"
    and "4 \<le> length (split_on CHR ''_'' t)"
    and "split_on CHR ''_'' t ! 0 = bookId req"
    and "split_on CHR ''_'' t ! 2 = ds @ rest"
    and "ds \<noteq> []" and "list_all isDigit ds"
    and "rest \<noteq> []" and "\<not> isDigit (hd rest)"
  shows "parseInt10 (split_on CHR ''_'' t ! 2) = Some (digitsValue ds) \<and>
         validateToken req now =
           (if now > digitsValue ds then Deny TokenExpiredOrInvalid else Allow)"
proof -
  have p: "parseInt10 (split_on CHR ''_'' t ! 2) = Some (digitsValue ds)"
    using assms(4-8) by (simp add: parseInt10_digits_prefix)
  from assms(2) have "t \<noteq> []" by (rule four_parts_not_empty)
  with assms(1) have "validateToken req now
      = checkTokenParts (split_on CHR ''_'' t) (bookId req) now"
    by (rule validateToken_supplied)
  also have "\<dots> = (if now > digitsValue ds then Deny TokenExpiredOrInvalid else Allow)"
    using assms(2,3) p by (rule checkTokenParts_valid)
  finally show ?thesis using p by simp
qed

theorem digit_prefix_expiration_witness:
  "parseInt10 (split_on CHR ''_'' ''book1_userA_1000abc_xyz'' ! 2) = Some 1000 \<and>
   validateToken \<lparr>bookId = ''book1'', queryUserToken = Some ''book1_userA_1000abc_xyz'',
       authorization = None, path = ''/''\<rparr> 1000 = Allow \<and>
   validateToken \<lparr>bookId = ''book1'', queryUserToken = Some ''book1_userA_1000abc_xyz'',
       authorization = None, path = ''/''\<rparr> 1001 = Deny TokenExpiredOrInvalid"
proof -
  let ?req = "\<lparr>bookId = ''book1'', queryUserToken = Some ''book1_userA_1000abc_xyz'',
          authorization = None, path = ''/''\<rparr>"
  have d: "digitsValue ''1000'' = 1000"
    by (simp add: digitsValue_def digitValue_def)
  have h: "userTokenOf ?req = Some ''book1_userA_1000abc_xyz''"
    "4 \<le> length (split_on CHR ''_'' ''book1_userA_1000abc_xyz'')"
    "split_on CHR ''_'' ''book1_userA_1000abc_xyz'' ! 0 = bookId ?req"
    "split_on CHR ''_'' ''book1_userA_1000abc_xyz'' ! 2 = ''1000'' @ ''abc''"
    "''1000'' \<noteq> []" "list_all isDigit ''1000''" "''abc'' \<noteq> []" "\<not> isDigit (hd ''abc'')"
    by (simp_all add: userTokenOf_def isDigit_def)
  show ?thesis
    using digit_prefix_expiration [OF h, of 1000] digit_prefix_expiration [OF h, of 1001]
    by (simp add: d)
qed

text \<open>
  The second comparison of the book stands behind the first one, which has already
  answered when the books differ.
\<close>

lemma checkTokenParts_second_check: "checkTokenParts parts b now \<noteq> Deny TokenNotForThisBook"
  by (simp add: checkTokenParts_def Let_def split: option.splits)

text \<open>
  C10. No input makes the second comparison of the book (\<^verbatim>\<open>tokenBookId !== bookId\<close>
  after the expiration check) answer: its response never comes out of the checks, of
  the validation or of the handler.
\<close>

theorem second_book_check_unreachable:
  "checkTokenParts parts b now \<noteq> Deny TokenNotForThisBook \<and>
   validateToken req now \<noteq> Deny TokenNotForThisBook \<and>
   handler dir req now \<noteq> Forbidden TokenNotForThisBook"
proof -
  have v: "validateToken req now \<noteq> Deny TokenNotForThisBook"
    by (auto simp: validateToken_def checkTokenParts_second_check split: option.splits)
  have "handler dir req now \<noteq> Forbidden TokenNotForThisBook"
    using v by (auto simp: handler_def split: decision.splits option.splits)
  with v show ?thesis by (simp add: checkTokenParts_second_check)
qed

theorem second_book_check_unreachable_witness:
  "validateToken \<lparr>bookId = ''book1'', queryUserToken = Some ''book2_userA_1000_xyz'',
       authorization = None, path = ''/OEBPS/chapter1.xhtml''\<rparr> 5
     \<noteq> Deny TokenNotForThisBook"
  using second_book_check_unreachable [where now = 5
        and req = "\<lparr>bookId = ''book1'', queryUserToken = Some ''book2_userA_1000_xyz'',
          authorization = None, path = ''/OEBPS/chapter1.xhtml''\<rparr>"]
  by simp

section \<open>Normalized paths\<close>

text \<open>Splitting and joining at the separator.\<close>

lemma split_on_no_sep: "s \<in> set (split_on c p) \<Longrightarrow> c \<notin> set s"
  by (induction p arbitrary: s) (auto split: if_splits list.splits)

lemma split_on_append_sep: "split_on c (xs @ c # ys) = split_on c xs @ split_on c ys"
proof (induction xs)
  case Nil
  show ?case by simp
next
  case (Cons x xs)
  obtain p ps where "split_on c xs = p # ps"
    using split_on_not_Nil [of c xs] by (cases "split_on c xs") auto
  with Cons show ?case by simp
qed

lemma split_on_plain: "c \<notin> set s \<Longrightarrow> split_on c s = [s]"
  by (induction s) auto

lemma split_on_join:
  assumes "segs \<noteq> []" and "\<forall>s \<in> set segs. c \<notin> set s"
  shows "split_on c (join_with [c] segs) = segs"
  using assms
proof (induction "[c]" segs rule: join_with.induct)
  case 1
  then show ?case by simp
next
  case (2 p)
  then show ?case by (simp add: split_on_plain)
next
  case (3 p q ps)
  then show ?case by (simp add: split_on_append_sep split_on_plain)
qed

lemma join_with_append:
  "join_with sep (xs @ ys) =
     join_with sep xs @ (if xs = [] \<or> ys = [] then [] else sep) @ join_with sep ys"
proof (induction sep xs rule: join_with.induct)
  case (1 sep)
  then show ?case by simp
next
  case (2 sep p)
  then show ?case by (cases ys) auto
next
  case (3 sep p q ps)
  then show ?case by simp
qed

text \<open>
  In an absolute path only plain segments are kept, and plain segments are kept as
  they are.
\<close>

lemma normalizeString_absolute_plain:
  assumes "list_all plainSegment kept" and "\<forall>s \<in> set ss. CHR ''/'' \<notin> set s"
  shows "list_all plainSegment (normalizeString False kept ss)"
  using assms
proof (induction ss arbitrary: kept)
  case Nil
  then show ?case by simp
next
  case (Cons s ss)
  have rest: "\<forall>s \<in> set ss. CHR ''/'' \<notin> set s" and s: "CHR ''/'' \<notin> set s"
    using Cons.prems(2) by auto
  have step: "list_all plainSegment k \<Longrightarrow> list_all plainSegment (normalizeString False k ss)" for k
    using Cons.IH rest by blast
  have pop: "list_all plainSegment (tl kept)"
    using Cons.prems(1) by (cases kept) auto
  have push: "list_all plainSegment (s # kept)" if "s \<noteq> []" "s \<noteq> ''.''" "s \<noteq> ''..''"
  proof -
    have "plainSegment s" using that s by (simp add: plainSegment_def)
    with Cons.prems(1) show ?thesis by simp
  qed
  show ?case
    using step [OF Cons.prems(1)] step [OF pop] step [OF push] by simp
qed

lemma normalizeString_plain:
  "list_all plainSegment ss \<Longrightarrow> normalizeString a kept ss = rev kept @ ss"
  by (induction ss arbitrary: kept) (auto simp: plainSegment_def)

lemma components_join_plain:
  assumes "list_all plainSegment segs"
  shows "components (join_with ''/'' segs) = segs"
proof (cases "segs = []")
  case True
  then show ?thesis by (simp add: components_def)
next
  case False
  have "\<forall>s \<in> set segs. CHR ''/'' \<notin> set s"
    using assms by (auto simp: list_all_iff plainSegment_def)
  with False have "split_on CHR ''/'' (join_with ''/'' segs) = segs"
    by (rule split_on_join)
  moreover have "filter (\<lambda>s. s \<noteq> []) segs = segs"
    using assms by (auto simp: list_all_iff plainSegment_def intro: filter_True)
  ultimately show ?thesis by (simp add: components_def)
qed

lemma components_leading_sep: "components (CHR ''/'' # p) = components p"
  by (simp add: components_def)

lemma components_trailing_sep: "components (p @ ''/'') = components p"
  using split_on_append_sep [of "CHR ''/''" p "[]"] by (simp add: components_def)


lemma keptSegments_plain: "list_all plainSegment (keptSegments p)"
  unfolding keptSegments_def
  by (rule normalizeString_absolute_plain) (auto dest: split_on_no_sep)

lemma join_plain_Nil: "list_all plainSegment segs \<Longrightarrow> join_with ''/'' segs = [] \<longleftrightarrow> segs = []"
  by (induction "''/''" segs rule: join_with.induct) (auto simp: plainSegment_def)

text \<open>
  An absolute path normalizes to the separator, the kept segments joined, and the
  trailing separator of the path when a segment is kept.
\<close>

lemma normalize_absolute:
  assumes "isAbsolute p"
  shows "normalize_path p = ''/'' @ join_with ''/'' (keptSegments p) @
           (if keptSegments p \<noteq> [] \<and> last p = CHR ''/'' then ''/'' else [])"
proof -
  have ne: "p \<noteq> []" using assms by (simp add: isAbsolute_def)
  have nil: "join_with ''/'' (keptSegments p) = [] \<longleftrightarrow> keptSegments p = []"
    using keptSegments_plain by (rule join_plain_Nil)
  show ?thesis
    using assms ne nil by (auto simp: normalize_path_def keptSegments_def [symmetric] Let_def)
qed

lemma components_normalize:
  assumes "isAbsolute p"
  shows "components (normalize_path p) = keptSegments p"
proof -
  have c: "components (join_with ''/'' (keptSegments p)) = keptSegments p"
    using keptSegments_plain by (rule components_join_plain)
  have "components (normalize_path p) = components (join_with ''/'' (keptSegments p))"
    using components_trailing_sep [of "CHR ''/'' # join_with ''/'' (keptSegments p)"]
    by (simp add: normalize_absolute [OF assms] components_leading_sep)
  with c show ?thesis by simp
qed

text \<open>
  When the kept segments of one path are the first kept segments of another, and the
  first path has no trailing separator, its normal form is a prefix of the other's,
  character by character.
\<close>

lemma prefix_normalize:
  assumes p: "isAbsolute p" and q: "isAbsolute q" and last: "last p \<noteq> CHR ''/''"
    and pre: "prefix (keptSegments p) (keptSegments q)"
  shows "prefix (normalize_path p) (normalize_path q)"
proof -
  from pre obtain xs where xs: "keptSegments q = keptSegments p @ xs"
    by (auto elim: prefixE)
  have np: "normalize_path p = ''/'' @ join_with ''/'' (keptSegments p)"
    using last by (simp add: normalize_absolute [OF p])
  show ?thesis
    unfolding np normalize_absolute [OF q] xs join_with_append
    by simp
qed


text \<open>
  Empty segments (repeated separators) and \<^verbatim>\<open>.\<close> segments of the input do not
  change what is kept, and a normalized absolute path is its own normal form.
\<close>

lemma normalizeString_skip_empty:
  "normalizeString a kept (filter (\<lambda>s. s \<noteq> []) ss) = normalizeString a kept ss"
  by (induction ss arbitrary: kept) auto

lemma keptSegments_components: "keptSegments p = normalizeString False [] (components p)"
  by (simp add: keptSegments_def components_def normalizeString_skip_empty)

lemma last_join_plain:
  assumes "segs \<noteq> []" and "list_all plainSegment segs"
  shows "last (join_with ''/'' segs) \<noteq> CHR ''/''"
  using assms
proof (induction "''/''" segs rule: join_with.induct)
  case 1
  then show ?case by simp
next
  case (2 p)
  then have "p \<noteq> []" and "CHR ''/'' \<notin> set p" by (simp_all add: plainSegment_def)
  then show ?case by (metis join_with.simps(2) last_in_set)
next
  case (3 p q ps)
  have "join_with ''/'' (q # ps) \<noteq> []"
    using 3 join_plain_Nil [of "q # ps"] by simp
  with 3 show ?case by simp
qed

lemma isAbsolute_normalize: "isAbsolute p \<Longrightarrow> isAbsolute (normalize_path p)"
  by (simp add: normalize_absolute) (simp add: isAbsolute_def)

lemma keptSegments_normalize:
  assumes "isAbsolute p"
  shows "keptSegments (normalize_path p) = keptSegments p"
  using keptSegments_plain [of p]
  by (simp add: keptSegments_components [of "normalize_path p"] components_normalize [OF assms]
        normalizeString_plain)

lemma normalize_idem:
  assumes "isAbsolute p"
  shows "normalize_path (normalize_path p) = normalize_path p"
proof -
  have abs: "isAbsolute (normalize_path p)"
    using assms by (rule isAbsolute_normalize)
  have eq: "normalize_path (normalize_path p) = ''/'' @ join_with ''/'' (keptSegments p) @
      (if keptSegments p \<noteq> [] \<and> last (normalize_path p) = CHR ''/'' then ''/'' else [])"
    using normalize_absolute [OF abs] by (simp add: keptSegments_normalize [OF assms])
  show ?thesis
  proof (cases "keptSegments p = []")
    case True
    then show ?thesis
      unfolding eq by (simp add: normalize_absolute [OF assms])
  next
    case False
    have l: "last (join_with ''/'' (keptSegments p)) \<noteq> CHR ''/''"
      using False keptSegments_plain by (rule last_join_plain)
    have n: "join_with ''/'' (keptSegments p) \<noteq> []"
      using False join_plain_Nil [OF keptSegments_plain, of p] by simp
    have "last (normalize_path p) = CHR ''/'' \<longleftrightarrow> last p = CHR ''/''"
      using False l n by (simp add: normalize_absolute [OF assms])
    then show ?thesis
      unfolding eq using False by (simp add: normalize_absolute [OF assms])
  qed
qed


lemma normalizeString_skip_redundant:
  "normalizeString a kept (filter (\<lambda>s. s \<noteq> [] \<and> s \<noteq> ''.'') ss) = normalizeString a kept ss"
  by (induction ss arbitrary: kept) auto

section \<open>The file path\<close>

text \<open>
  With an absolute \<^verbatim>\<open>__dirname\<close>, the strings that \<^verbatim>\<open>path.join\<close> normalizes are
  absolute, and the one of \<^verbatim>\<open>safeBase\<close> ends with the book, or with the folder of the
  books when the book is empty.
\<close>

lemma joined_absolute:
  assumes "isAbsolute d"
  shows "filter (\<lambda>a. a \<noteq> []) (d # args) \<noteq> []"
    and "isAbsolute (join_with ''/'' (filter (\<lambda>a. a \<noteq> []) (d # args)))"
proof -
  have d: "d \<noteq> []" "hd d = CHR ''/''" using assms by (simp_all add: isAbsolute_def)
  show "filter (\<lambda>a. a \<noteq> []) (d # args) \<noteq> []" using d by simp
  show "isAbsolute (join_with ''/'' (filter (\<lambda>a. a \<noteq> []) (d # args)))"
    using d by (cases "filter (\<lambda>a. a \<noteq> []) args") (simp_all add: isAbsolute_def)
qed

lemma safeBase_no_trailing:
  assumes "d \<noteq> []" and "\<not> suffix ''/'' b"
  shows "last (join_with ''/'' (filter (\<lambda>a. a \<noteq> []) [d, ''epubs_descomprimidos'', b])) \<noteq> CHR ''/''"
proof (cases "b = []")
  case True
  with assms(1) show ?thesis by simp
next
  case False
  then have "last b \<noteq> CHR ''/''"
    using assms(2) by (cases b rule: rev_cases) auto
  with False assms(1) show ?thesis by simp
qed

text \<open>
  The check as a function of \<^verbatim>\<open>req.path\<close>. Whenever the normalized file path lies
  within the folder of the book, by path components (the folder itself included),
  the check passes and the handler goes on with the normalized path: an absolute path
  of plain segments, which is its own normal form, whatever \<^verbatim>\<open>.\<close> segments and
  repeated separators \<^verbatim>\<open>req.path\<close> had. \<^verbatim>\<open>__dirname\<close> is absolute, and the book does
  not end with a separator.
\<close>

lemma inside_root_resolved:
  assumes d: "isAbsolute dirname" and b: "\<not> suffix ''/'' (bookId req)"
    and inside: "within_root (safeBase dirname req) (fullFilePath dirname req)"
  shows "resolvePath dirname req = Some (fullFilePath dirname req) \<and>
         isAbsolute (fullFilePath dirname req) \<and>
         normalize_path (fullFilePath dirname req) = fullFilePath dirname req \<and>
         list_all plainSegment (components (fullFilePath dirname req))"
proof -
  define base where
    "base = join_with ''/'' (filter (\<lambda>a. a \<noteq> []) [dirname, ''epubs_descomprimidos'', bookId req])"
  define joined where
    "joined = join_with ''/''
       (filter (\<lambda>a. a \<noteq> []) [dirname, ''epubs_descomprimidos'', bookId req, path req])"
  have sb: "safeBase dirname req = normalize_path base"
    using joined_absolute(1) [OF d, of "[''epubs_descomprimidos'', bookId req]"]
    by (simp add: safeBase_def path_join_def base_def)
  have ff: "fullFilePath dirname req = normalize_path joined"
    using joined_absolute(1) [OF d, of "[''epubs_descomprimidos'', bookId req, path req]"]
    by (simp add: fullFilePath_def path_join_def joined_def)
  have abs_base: "isAbsolute base"
    unfolding base_def by (rule joined_absolute(2) [OF d])
  have abs_joined: "isAbsolute joined"
    unfolding joined_def by (rule joined_absolute(2) [OF d])
  have "dirname \<noteq> []" using d by (simp add: isAbsolute_def)
  then have last_base: "last base \<noteq> CHR ''/''"
    unfolding base_def using b by (rule safeBase_no_trailing)
  have "prefix (keptSegments base) (keptSegments joined)"
    using inside
    by (simp add: within_root_def sb ff components_normalize abs_base abs_joined)
  with abs_base abs_joined last_base
  have "prefix (normalize_path base) (normalize_path joined)"
    by (rule prefix_normalize)
  then have "resolvePath dirname req = Some (fullFilePath dirname req)"
    by (simp add: resolvePath_def sb ff)
  moreover have "isAbsolute (fullFilePath dirname req)"
    unfolding ff using abs_joined by (rule isAbsolute_normalize)
  moreover have "normalize_path (fullFilePath dirname req) = fullFilePath dirname req"
    unfolding ff using abs_joined by (rule normalize_idem)
  moreover have "list_all plainSegment (components (fullFilePath dirname req))"
    unfolding ff by (simp add: components_normalize abs_joined keptSegments_plain)
  ultimately show ?thesis by simp
qed

lemma inside_root_resolved_example:
  "resolvePath ''/data'' \<lparr>bookId = ''book1'', queryUserToken = None, authorization = None,
       path = ''/OEBPS/./chapter1.xhtml''\<rparr>
     = Some ''/data/epubs_descomprimidos/book1/OEBPS/chapter1.xhtml''"
proof -
  let ?req = "\<lparr>bookId = ''book1'', queryUserToken = None, authorization = None,
       path = ''/OEBPS/./chapter1.xhtml''\<rparr>"
  have f: "fullFilePath ''/data'' ?req = ''/data/epubs_descomprimidos/book1/OEBPS/chapter1.xhtml''"
    by code_simp
  have s: "safeBase ''/data'' ?req = ''/data/epubs_descomprimidos/book1''"
    by code_simp
  have w: "within_root ''/data/epubs_descomprimidos/book1''
      ''/data/epubs_descomprimidos/book1/OEBPS/chapter1.xhtml''"
    by code_simp
  have a: "isAbsolute ''/data''" by (simp add: isAbsolute_def)
  have b: "\<not> suffix ''/'' (bookId ?req)" by (simp add: suffix_def)
  show ?thesis
    using inside_root_resolved [of "''/data''" ?req] a b w by (simp only: f s simp_thms)
qed

text \<open>
  The hypothesis on the book is needed: for a book that ends with a separator,
  \<^verbatim>\<open>safeBase\<close> keeps the separator, and the folder itself, reached without it, is
  refused.
\<close>

lemma trailing_separator_book_example:
  "resolvePath ''/data'' \<lparr>bookId = ''book1/'', queryUserToken = None, authorization = None,
       path = ''/.''\<rparr> = None"
  by code_simp

text \<open>
  Were \<^verbatim>\<open>req.path\<close> a path that leaves the folder of the book through the folders
  above it, the check would refuse it with the 400.
\<close>

lemma traversal_rejected_example:
  "handler ''/data'' \<lparr>bookId = ''book1'', queryUserToken = Some ''book1_userA_9999999999999_xyz'',
       authorization = None, path = ''/../../../etc/passwd''\<rparr> 1700000000000 = InvalidPath"
  by code_simp

text \<open>
  The check is \<^verbatim>\<open>startsWith\<close>, on characters: were \<^verbatim>\<open>req.path\<close> the path
  \<^verbatim>\<open>/../1234/x\<close> for the book \<^verbatim>\<open>123\<close>, the file of the sibling folder \<^verbatim>\<open>1234\<close> would
  pass it.
\<close>

lemma sibling_prefix_example:
  "safeBase ''/srv'' \<lparr>bookId = ''123'', queryUserToken = Some ''123_userA_9999999999999_xyz'',
       authorization = None, path = ''/../1234/x''\<rparr> = ''/srv/epubs_descomprimidos/123'' \<and>
   handler ''/srv'' \<lparr>bookId = ''123'', queryUserToken = Some ''123_userA_9999999999999_xyz'',
       authorization = None, path = ''/../1234/x''\<rparr> 1700000000000
     = ReadFile ''/srv/epubs_descomprimidos/1234/x'' \<and>
   \<not> within_root ''/srv/epubs_descomprimidos/123'' ''/srv/epubs_descomprimidos/1234/x''"
  by code_simp

section \<open>The mounted handler\<close>

text \<open>
  In the mounted handler \<^verbatim>\<open>req.path\<close> is \<^verbatim>\<open>/\<close>: the file path is the folder of the
  book with a trailing separator, the check always passes, and the 400 is never the
  answer.
\<close>

lemma keptSegments_trailing_seps: "keptSegments (p @ ''//'') = keptSegments p"
proof -
  have "split_on CHR ''/'' (p @ ''//'') = split_on CHR ''/'' p @ [[], []]"
    using split_on_append_sep [of "CHR ''/''" p "''/''"] by simp
  then have "components (p @ ''//'') = components p"
    by (simp add: components_def)
  then show ?thesis by (simp add: keptSegments_components)
qed

lemma root_path_resolved:
  assumes d: "isAbsolute dirname" and p: "path req = ''/''"
  shows "resolvePath dirname req = Some (fullFilePath dirname req) \<and>
         components (fullFilePath dirname req) = components (safeBase dirname req)"
proof -
  define args where "args = filter (\<lambda>a. a \<noteq> []) [dirname, ''epubs_descomprimidos'', bookId req]"
  define base where "base = join_with ''/'' args"
  have args: "args \<noteq> []"
    unfolding args_def by (rule joined_absolute(1) [OF d])
  have abs_base: "isAbsolute base"
    unfolding base_def args_def by (rule joined_absolute(2) [OF d])
  have sb: "safeBase dirname req = normalize_path base"
    using args by (simp add: safeBase_def path_join_def base_def args_def)
  have "filter (\<lambda>a. a \<noteq> []) [dirname, ''epubs_descomprimidos'', bookId req, path req]
      = args @ [''/'']"
    by (simp add: args_def p)
  then have ff: "fullFilePath dirname req = normalize_path (base @ ''//'')"
    using args by (simp add: fullFilePath_def path_join_def base_def join_with_append)
  have abs_joined: "isAbsolute (base @ ''//'')"
    using abs_base by (simp add: isAbsolute_def)
  have "prefix (normalize_path base) (normalize_path (base @ ''//''))"
    by (simp add: normalize_absolute [OF abs_base] normalize_absolute [OF abs_joined]
          keptSegments_trailing_seps)
  then have "resolvePath dirname req = Some (fullFilePath dirname req)"
    by (simp add: resolvePath_def sb ff)
  moreover have "components (fullFilePath dirname req) = components (safeBase dirname req)"
    by (simp add: sb ff components_normalize abs_base abs_joined keptSegments_trailing_seps)
  ultimately show ?thesis by simp
qed

lemma mounted_never_invalid:
  assumes "isAbsolute dirname"
  shows "handler dirname (mountedRequest bId q a rest) now \<noteq> InvalidPath"
proof -
  have "path (mountedRequest bId q a rest) = ''/''"
    by (simp add: mountedRequest_def mountedPath_def)
  with assms have "resolvePath dirname (mountedRequest bId q a rest)
      = Some (fullFilePath dirname (mountedRequest bId q a rest))"
    using root_path_resolved by blast
  then show ?thesis
    by (simp add: handler_def split: decision.splits)
qed

text \<open>
  C1 fails on the code. The requested sub-path \<^verbatim>\<open>../../../etc/passwd\<close> of the book
  \<^verbatim>\<open>book1\<close> leaves the folder of the book (joined to it, it is \<^verbatim>\<open>/etc/passwd\<close>), and
  the claim has the request denied as a path traversal. The mounted handler never
  sees the sub-path: it does not answer 400, and goes on to read the folder of the
  book itself.
\<close>

theorem mounted_traversal_not_denied:
  "path_join [''/data/epubs_descomprimidos/book1'', ''../../../etc/passwd''] = ''/etc/passwd'' \<and>
   \<not> within_root ''/data/epubs_descomprimidos/book1'' ''/etc/passwd'' \<and>
   safeBase ''/data'' (mountedRequest ''book1'' (Some ''book1_userA_9999999999999_xyz'') None
       ''../../../etc/passwd'') = ''/data/epubs_descomprimidos/book1'' \<and>
   handler ''/data'' (mountedRequest ''book1'' (Some ''book1_userA_9999999999999_xyz'') None
       ''../../../etc/passwd'') 1700000000000
     = ReadFile ''/data/epubs_descomprimidos/book1/''"
  by code_simp

text \<open>
  C7 fails on the code. The requested sub-path \<^verbatim>\<open>OEBPS/chapter1.xhtml\<close> of the book
  \<^verbatim>\<open>book1\<close> lies within the folder of the book, and the claim has it resolved to
  that file of the folder. The mounted handler resolves it, as every request, to the
  folder of the book itself.
\<close>

theorem mounted_subpath_dropped:
  "path_join [''/data/epubs_descomprimidos/book1'', ''OEBPS/chapter1.xhtml'']
     = ''/data/epubs_descomprimidos/book1/OEBPS/chapter1.xhtml'' \<and>
   within_root ''/data/epubs_descomprimidos/book1''
     ''/data/epubs_descomprimidos/book1/OEBPS/chapter1.xhtml'' \<and>
   resolvePath ''/data'' (mountedRequest ''book1'' (Some ''book1_userA_9999999999999_xyz'') None
       ''OEBPS/chapter1.xhtml'') = Some ''/data/epubs_descomprimidos/book1/'' \<and>
   handler ''/data'' (mountedRequest ''book1'' (Some ''book1_userA_9999999999999_xyz'') None
       ''OEBPS/chapter1.xhtml'') 1700000000000
     = ReadFile ''/data/epubs_descomprimidos/book1/''"
  by code_simp

text \<open>
  C8. The resolution of the path depends on the book and the requested path alone:
  two requests that agree on both get the same result of the check, whatever their
  tokens, and when both tokens are allowed, at whatever times, the handler gives the
  same response.
\<close>

theorem resolution_deterministic:
  assumes "bookId req1 = bookId req2" and "path req1 = path req2"
  shows "resolvePath dirname req1 = resolvePath dirname req2 \<and>
         (validateToken req1 now1 = Allow \<and> validateToken req2 now2 = Allow \<longrightarrow>
            handler dirname req1 now1 = handler dirname req2 now2)"
  using assms by (simp add: resolvePath_def safeBase_def fullFilePath_def handler_def)

theorem resolution_deterministic_witness:
  "resolvePath ''/data'' \<lparr>bookId = ''book1'', queryUserToken = Some ''book1_userA_2000_xyz'',
       authorization = None, path = ''/a/../b''\<rparr>
   = resolvePath ''/data'' \<lparr>bookId = ''book1'', queryUserToken = None,
       authorization = Some ''book1_userB_3000_abc'', path = ''/a/../b''\<rparr> \<and>
   handler ''/data'' \<lparr>bookId = ''book1'', queryUserToken = Some ''book1_userA_2000_xyz'',
       authorization = None, path = ''/a/../b''\<rparr> 1000
   = handler ''/data'' \<lparr>bookId = ''book1'', queryUserToken = None,
       authorization = Some ''book1_userB_3000_abc'', path = ''/a/../b''\<rparr> 2500"
proof -
  let ?r1 = "\<lparr>bookId = ''book1'', queryUserToken = Some ''book1_userA_2000_xyz'',
       authorization = None, path = ''/a/../b''\<rparr>"
  let ?r2 = "\<lparr>bookId = ''book1'', queryUserToken = None,
       authorization = Some ''book1_userB_3000_abc'', path = ''/a/../b''\<rparr>"
  have v1: "validateToken ?r1 1000 = Allow" by code_simp
  have v2: "validateToken ?r2 2500 = Allow" by code_simp
  show ?thesis
    using resolution_deterministic [of ?r1 ?r2 "''/data''" 1000 2500] v1 v2 by simp
qed

end
